theory Spec2Isabelle
  imports Main "HOL-Library.Word"
begin

section \<open>The scale-from-zero handler of the gateway (gateway/handlers/scaling.go)\<close>

text \<open>
  The development embeds \<^verbatim>\<open>FunctionScaler.Scale\<close> and the handler built by
  \<^verbatim>\<open>MakeScalingHandler\<close>. Everything the Go code does to its collaborators (the
  \<^verbatim>\<open>ServiceQuery\<close> interface, the function cache, the clock, the logger, the
  \<^verbatim>\<open>http.ResponseWriter\<close> and the next handler) is made explicit: each function
  returns the list of events it emitted, in program order, and the state it left.
\<close>

subsection \<open>Data\<close>

text \<open>
  A Go \<^verbatim>\<open>error\<close> is identified with the text its \<^verbatim>\<open>Error()\<close> method returns;
  the nil error is \<open>None\<close>.
\<close>

type_synonym error = string

text \<open>
  \<^verbatim>\<open>scaling.ServiceQueryResponse\<close>, restricted to the two fields the scaler reads.
  Both are \<^verbatim>\<open>uint64\<close>.
\<close>

record ServiceQueryResponse =
  AvailableReplicas :: "64 word"
  MinReplicas :: "64 word"

text \<open>
  \<^verbatim>\<open>scaling.ServiceQuery\<close> is an interface. An implementation is a pair of methods
  over a state \<open>'s\<close> of its own (the control plane behind it). As in Go,
  \<^verbatim>\<open>GetReplicas\<close> returns a response value and an error together: nothing in the
  type forces the response to be the zero value when the error is not nil.
\<close>

record 's ServiceQuery =
  GetReplicas :: "string \<Rightarrow> 's \<Rightarrow> (ServiceQueryResponse \<times> error option) \<times> 's"
  SetReplicas :: "string \<Rightarrow> 64 word \<Rightarrow> 's \<Rightarrow> error option \<times> 's"

text \<open>
  \<^verbatim>\<open>ScalingConfig\<close>. \<^verbatim>\<open>MaxPollCount\<close> is a \<^verbatim>\<open>uint\<close> (64 bits), the two
  \<^verbatim>\<open>time.Duration\<close> fields are nanosecond counts.
\<close>

record 's ScalingConfig =
  MaxPollCount :: "64 word"
  FunctionPollInterval :: int
  CacheExpiry :: int
  ServiceQuery :: "'s ServiceQuery"

record FunctionScaleResult =
  Available :: bool
  Error :: "error option"
  Found :: bool
  Duration :: int

text \<open>
  Modelled from the spec: \<^verbatim>\<open>scaling.FunctionMeta\<close> and \<^verbatim>\<open>scaling.FunctionCache\<close>
  are declared in a package that is not part of the source at hand; only the field names
  \<^verbatim>\<open>Cache\<close> and \<^verbatim>\<open>Expiry\<close> are visible in \<^verbatim>\<open>NewFunctionScaler\<close>. An entry
  holds the observation and an expiry instant derived from the configured life-time.
\<close>

record FunctionMeta =
  Observation :: ServiceQueryResponse
  ExpiresAt :: int

record FunctionCache =
  Cache :: "string \<rightharpoonup> FunctionMeta"
  Expiry :: int

text \<open>
  Modelled from the spec: \<^verbatim>\<open>FunctionCache.Set\<close> is missing from the source; the
  specification says that it unconditionally overwrites the entry for the name and resets
  its expiry to now plus the life-time.
\<close>

definition FunctionCache_Set :: "int \<Rightarrow> string \<Rightarrow> ServiceQueryResponse \<Rightarrow> FunctionCache \<Rightarrow> FunctionCache" where
  "FunctionCache_Set now functionName serviceQueryResponse fc =
     fc\<lparr>Cache := (Cache fc)(functionName \<mapsto>
        \<lparr>Observation = serviceQueryResponse, ExpiresAt = now + Expiry fc\<rparr>)\<rparr>"

text \<open>
  The lines written with \<^verbatim>\<open>log.Printf\<close>, by format string, with the arguments that
  are formatted into them (durations stay nanosecond counts).
\<close>

datatype logline =
    LogRequested string "64 word"
  | LogSuccessful string "64 word" int
  | LogScaling string
  | LogTimedOut string int

text \<open>
  Every call that leaves the scaler is an event: the two methods of the service with
  their results, the write to the cache, the sleep, the log line, and for the handler the
  calls on the response writer and the call of the next handler (with the request's URL).
\<close>

datatype event =
    EvGetReplicas string ServiceQueryResponse "error option"
  | EvSetReplicas string "64 word" "error option"
  | EvCacheSet string ServiceQueryResponse
  | EvSleep int
  | EvLog logline
  | EvWriteHeader nat
  | EvWrite string
  | EvNext string

text \<open>
  The state a call runs in: the state of the service behind \<^verbatim>\<open>ServiceQuery\<close>, the
  clock read by \<^verbatim>\<open>time.Now\<close> (nanoseconds), and the cache the scaler's
  \<^verbatim>\<open>Cache\<close> pointer refers to. The clock advances only while the scaler sleeps; the
  time spent inside the service is not modelled.
\<close>

record 's world =
  svc :: 's
  clock :: int
  cache :: FunctionCache

subsection \<open>The collaborators' calls\<close>

definition callGetReplicas ::
  "'s ScalingConfig \<Rightarrow> string \<Rightarrow> 's world \<Rightarrow> (ServiceQueryResponse \<times> error option) \<times> event list \<times> 's world" where
  "callGetReplicas config functionName w =
     (case GetReplicas (ServiceQuery config) functionName (svc w) of
        ((queryResponse, err), s') \<Rightarrow>
          ((queryResponse, err), [EvGetReplicas functionName queryResponse err], w\<lparr>svc := s'\<rparr>))"

definition callSetReplicas ::
  "'s ScalingConfig \<Rightarrow> string \<Rightarrow> 64 word \<Rightarrow> 's world \<Rightarrow> error option \<times> event list \<times> 's world" where
  "callSetReplicas config functionName count w =
     (case SetReplicas (ServiceQuery config) functionName count (svc w) of
        (err, s') \<Rightarrow> (err, [EvSetReplicas functionName count err], w\<lparr>svc := s'\<rparr>))"

definition cacheSet :: "string \<Rightarrow> ServiceQueryResponse \<Rightarrow> 's world \<Rightarrow> event list \<times> 's world" where
  "cacheSet functionName queryResponse w =
     ([EvCacheSet functionName queryResponse],
      w\<lparr>cache := FunctionCache_Set (clock w) functionName queryResponse (cache w)\<rparr>)"

text \<open>\<^verbatim>\<open>time.Sleep\<close> returns at once for a duration that is zero or negative.\<close>

definition sleep :: "int \<Rightarrow> 's world \<Rightarrow> event list \<times> 's world" where
  "sleep d w = ([EvSleep d], w\<lparr>clock := clock w + max 0 d\<rparr>)"

definition since :: "int \<Rightarrow> 's world \<Rightarrow> int" where
  "since start w = clock w - start"

text \<open>
  \<^verbatim>\<open>fmt\<close>'s rendering of an \<^verbatim>\<open>error\<close> operand under the verb \<^verbatim>\<open>%s\<close>: the
  error's text, and the bad-verb marker for a nil interface value.
\<close>

definition fmt_s :: "error option \<Rightarrow> string" where
  "fmt_s err = (case err of None \<Rightarrow> ''%!s(<nil>)'' | Some e \<Rightarrow> e)"

text \<open>\<^verbatim>\<open>fmt.Errorf("unable to scale function [%s], err: %s", functionName, err)\<close>\<close>

definition unable_to_scale :: "string \<Rightarrow> error option \<Rightarrow> error" where
  "unable_to_scale functionName err =
     ''unable to scale function ['' @ functionName @ ''], err: '' @ fmt_s err"

subsection \<open>Scale\<close>

text \<open>
  One pass through the body of the polling loop (lines 94 to 119). \<open>Some r\<close> is a
  \<^verbatim>\<open>return r\<close> from inside the loop, \<open>None\<close> is reaching the end of the body.
\<close>

definition pollBody ::
  "'s ScalingConfig \<Rightarrow> string \<Rightarrow> int \<Rightarrow> 's world \<Rightarrow> FunctionScaleResult option \<times> event list \<times> 's world" where
  "pollBody config functionName start w =
     (case callGetReplicas config functionName w of
        ((queryResponse, err), evs1, w1) \<Rightarrow>
     (case cacheSet functionName queryResponse w1 of
        (evs2, w2) \<Rightarrow>
       (let totalTime = since start w2 in
        case err of
          Some e \<Rightarrow>
            (Some \<lparr>Available = False, Error = Some e, Found = True, Duration = totalTime\<rparr>,
             evs1 @ evs2, w2)
        | None \<Rightarrow>
            if AvailableReplicas queryResponse > 0 then
              (Some \<lparr>Available = True, Error = None, Found = True, Duration = totalTime\<rparr>,
               evs1 @ evs2 @
                 [EvLog (LogSuccessful functionName (AvailableReplicas queryResponse) totalTime)],
               w2)
            else
              (case sleep (FunctionPollInterval config) w2 of
                 (evs3, w3) \<Rightarrow> (None, evs1 @ evs2 @ evs3, w3)))))"

text \<open>
  \<^verbatim>\<open>for i := 0; i < int(f.Config.MaxPollCount); i++\<close>. The conversion of the unsigned
  count to \<^verbatim>\<open>int\<close> reinterprets its 64 bits as a signed number. \<open>None\<close> is leaving
  the loop by its condition.
\<close>

function pollLoop ::
  "'s ScalingConfig \<Rightarrow> string \<Rightarrow> int \<Rightarrow> int \<Rightarrow> 's world \<Rightarrow> FunctionScaleResult option \<times> event list \<times> 's world" where
  "pollLoop config functionName start i w =
     (if i < sint (MaxPollCount config) then
        (case pollBody config functionName start w of
           (Some r, evs, w') \<Rightarrow> (Some r, evs, w')
         | (None, evs, w') \<Rightarrow>
             (case pollLoop config functionName start (i + 1) w' of
                (r, evs', w'') \<Rightarrow> (r, evs @ evs', w'')))
      else (None, [], w))"
  by pat_completeness auto
termination
  by (relation "measure (\<lambda>(config, functionName, start, i, w). nat (sint (MaxPollCount config) - i))") auto

declare pollLoop.simps [simp del]

definition Scale ::
  "'s ScalingConfig \<Rightarrow> string \<Rightarrow> 's world \<Rightarrow> FunctionScaleResult \<times> event list \<times> 's world" where
  "Scale config functionName w =
     (let start = clock w in
      case callGetReplicas config functionName w of
        ((queryResponse, err), evs1, w1) \<Rightarrow>
      (case err of
         Some e \<Rightarrow>
           (\<lparr>Available = False, Error = Some e, Found = False, Duration = since start w1\<rparr>,
            evs1, w1)
       | None \<Rightarrow>
      (case cacheSet functionName queryResponse w1 of
        (evs2, w2) \<Rightarrow>
          if AvailableReplicas queryResponse = 0 then
            (let minReplicas =
                   (if MinReplicas queryResponse > 0 then MinReplicas queryResponse else 1);
                 evs3 = [EvLog (LogRequested functionName minReplicas)]
             in case callSetReplicas config functionName minReplicas w2 of
                  (setScaleErr, evs4, w4) \<Rightarrow>
                (case setScaleErr of
                   Some _ \<Rightarrow>
                     (\<lparr>Available = False, Error = Some (unable_to_scale functionName err),
                       Found = True, Duration = since start w4\<rparr>,
                      evs1 @ evs2 @ evs3 @ evs4, w4)
                 | None \<Rightarrow>
                (case pollLoop config functionName start 0 w4 of
                   (Some r, evs5, w5) \<Rightarrow> (r, evs1 @ evs2 @ evs3 @ evs4 @ evs5, w5)
                 | (None, evs5, w5) \<Rightarrow>
                     (\<lparr>Available = True, Error = None, Found = True, Duration = since start w5\<rparr>,
                      evs1 @ evs2 @ evs3 @ evs4 @ evs5, w5))))
          else
            (\<lparr>Available = True, Error = None, Found = True, Duration = since start w2\<rparr>,
             evs1 @ evs2, w2))))"

subsection \<open>The handler\<close>

text \<open>
  \<^verbatim>\<open>NewFunctionScaler\<close> allocates the cache: an empty map with the configured expiry.
\<close>

definition NewFunctionScaler :: "'s ScalingConfig \<Rightarrow> 's world \<Rightarrow> 's world" where
  "NewFunctionScaler config w = w\<lparr>cache := \<lparr>Cache = Map.empty, Expiry = CacheExpiry config\<rparr>\<rparr>"

definition StatusNotFound :: nat where
  "StatusNotFound = 404"

definition StatusInternalServerError :: nat where
  "StatusInternalServerError = 500"

text \<open>
  Calling \<^verbatim>\<open>Error()\<close> on a nil \<^verbatim>\<open>error\<close> is a run-time panic.
\<close>

datatype panic = NilPointerDereference

text \<open>\<^verbatim>\<open>fmt.Sprintf("error finding function %s: %s", functionName, res.Error.Error())\<close>\<close>

definition error_finding :: "string \<Rightarrow> error \<Rightarrow> string" where
  "error_finding functionName e = ''error finding function '' @ functionName @ '': '' @ e"

text \<open>
  The closure returned by \<^verbatim>\<open>MakeScalingHandler\<close>, applied to a request with the
  given URL. \<^verbatim>\<open>getServiceName\<close> is defined outside the source at hand and is a
  parameter. The first component is the panic that ended the call, if any.
\<close>

definition ScalingHandler ::
  "(string \<Rightarrow> string) \<Rightarrow> 's ScalingConfig \<Rightarrow> string \<Rightarrow> 's world \<Rightarrow> panic option \<times> event list \<times> 's world" where
  "ScalingHandler getServiceName config url w =
     (let functionName = getServiceName url in
      case Scale config functionName w of
        (res, evs, w') \<Rightarrow>
          if \<not> Found res then
            (case Error res of
               None \<Rightarrow> (Some NilPointerDereference, evs, w')
             | Some e \<Rightarrow>
                 (let errStr = error_finding functionName e in
                  (None,
                   evs @ [EvLog (LogScaling errStr), EvWriteHeader StatusNotFound, EvWrite errStr],
                   w')))
          else if Error res \<noteq> None then
            (case Error res of
               None \<Rightarrow> (Some NilPointerDereference, evs, w')
             | Some e \<Rightarrow>
                 (let errStr = error_finding functionName e in
                  (None,
                   evs @ [EvLog (LogScaling errStr), EvWriteHeader StatusInternalServerError,
                          EvWrite errStr],
                   w')))
          else if Available res then (None, evs @ [EvNext url], w')
          else (None, evs @ [EvLog (LogTimedOut functionName (Duration res))], w'))"

text \<open>
  \<^verbatim>\<open>MakeScalingHandler\<close> creates the scaler once and returns the closure over it.
\<close>

definition MakeScalingHandler ::
  "(string \<Rightarrow> string) \<Rightarrow> 's ScalingConfig \<Rightarrow> 's world \<Rightarrow>
     (string \<Rightarrow> 's world \<Rightarrow> panic option \<times> event list \<times> 's world) \<times> 's world" where
  "MakeScalingHandler getServiceName config w =
     (ScalingHandler getServiceName config, NewFunctionScaler config w)"

subsection \<open>A scripted service\<close>

text \<open>
  A test double for \<^verbatim>\<open>ServiceQuery\<close>: \<^verbatim>\<open>GetReplicas\<close> answers from a script, one
  entry per call, and repeats a fixed answer once the script is used up;
  \<^verbatim>\<open>SetReplicas\<close> always returns the same error value.
\<close>

type_synonym script = "(ServiceQueryResponse \<times> error option) list"

definition scripted :: "(ServiceQueryResponse \<times> error option) \<Rightarrow> error option \<Rightarrow> script ServiceQuery" where
  "scripted dflt setErr =
     \<lparr>GetReplicas = (\<lambda>functionName s. case s of [] \<Rightarrow> (dflt, []) | x # xs \<Rightarrow> (x, xs)),
      SetReplicas = (\<lambda>functionName count s. (setErr, s))\<rparr>"

definition replicas :: "64 word \<Rightarrow> 64 word \<Rightarrow> ServiceQueryResponse" where
  "replicas available minimum = \<lparr>AvailableReplicas = available, MinReplicas = minimum\<rparr>"

definition testConfig :: "64 word \<Rightarrow> error option \<Rightarrow> script ScalingConfig" where
  "testConfig maxPollCount setErr =
     \<lparr>MaxPollCount = maxPollCount, FunctionPollInterval = 10000000, CacheExpiry = 5000000000,
      ServiceQuery = scripted (replicas 0 0, None) setErr\<rparr>"

definition testWorld :: "script \<Rightarrow> script world" where
  "testWorld s = \<lparr>svc = s, clock = 0, cache = \<lparr>Cache = Map.empty, Expiry = 5000000000\<rparr>\<rparr>"

section \<open>Properties\<close>

subsection \<open>One pass of the loop, and the loop\<close>

text \<open>
  The body of the loop ends in one of three ways: the query failed, the query saw a
  replica, or the query saw none and the scaler slept.
\<close>

lemma pollBody_shape:
  assumes "pollBody config n start w = (ro, evs, w')"
  shows "(\<exists>q x d. evs = [EvGetReplicas n q (Some x), EvCacheSet n q] \<and>
            ro = Some \<lparr>Available = False, Error = Some x, Found = True, Duration = d\<rparr>)
       \<or> (\<exists>q d. 0 < AvailableReplicas q \<and>
            evs = [EvGetReplicas n q None, EvCacheSet n q,
                   EvLog (LogSuccessful n (AvailableReplicas q) d)] \<and>
            ro = Some \<lparr>Available = True, Error = None, Found = True, Duration = d\<rparr>)
       \<or> (\<exists>q. AvailableReplicas q = 0 \<and>
            evs = [EvGetReplicas n q None, EvCacheSet n q, EvSleep (FunctionPollInterval config)] \<and>
            ro = None)"
  using assms
  by (auto simp: pollBody_def callGetReplicas_def cacheSet_def sleep_def Let_def word_gt_0
           split: prod.splits option.splits if_splits)

lemma pollLoop_shape_induct:
  assumes stop: "P None []"
    and failed: "\<And>q x d. P (Some \<lparr>Available = False, Error = Some x, Found = True, Duration = d\<rparr>)
                   [EvGetReplicas n q (Some x), EvCacheSet n q]"
    and ready: "\<And>q d. 0 < AvailableReplicas q \<Longrightarrow>
                   P (Some \<lparr>Available = True, Error = None, Found = True, Duration = d\<rparr>)
                     [EvGetReplicas n q None, EvCacheSet n q,
                      EvLog (LogSuccessful n (AvailableReplicas q) d)]"
    and again: "\<And>q ro evs. AvailableReplicas q = 0 \<Longrightarrow> P ro evs \<Longrightarrow>
                   P ro (EvGetReplicas n q None # EvCacheSet n q #
                         EvSleep (FunctionPollInterval config) # evs)"
  shows "pollLoop config n start i w = (ro, evs, w') \<Longrightarrow> P ro evs"
  using stop failed ready again
proof (induction config n start i w arbitrary: ro evs w' rule: pollLoop.induct)
  case (1 config n start i w)
  show ?case
  proof (cases "i < sint (MaxPollCount config)")
    case False
    with "1.prems" show ?thesis by (simp add: pollLoop.simps)
  next
    case True
    obtain rb evs0 w0 where b: "pollBody config n start w = (rb, evs0, w0)"
      by (cases "pollBody config n start w") auto
    show ?thesis
    proof (cases rb)
      case None
      obtain r1 evs1 w1 where l: "pollLoop config n start (i + 1) w0 = (r1, evs1, w1)"
        by (cases "pollLoop config n start (i + 1) w0") auto
      from "1.prems"(1) True b None l have eq: "ro = r1" "evs = evs0 @ evs1"
        by (simp_all add: pollLoop.simps [of config n start i w])
      have "P r1 evs1"
        using "1.IH" [OF True b [symmetric] _ refl l] None "1.prems"(2-5) by blast
      with pollBody_shape [OF b] None eq "1.prems"(5) show ?thesis
        by auto
    next
      case (Some r0)
      with "1.prems"(1) True b have "ro = Some r0" "evs = evs0"
        by (simp_all add: pollLoop.simps [of config n start i w])
      with pollBody_shape [OF b] Some "1.prems"(3,4) show ?thesis by auto
    qed
  qed
qed

lemma pollLoop_result:
  assumes "pollLoop config n start i w = (Some r, evs, w')"
  shows "Found r \<and> (Error r = None \<longrightarrow> Available r) \<and> (Available r \<longrightarrow> Error r = None)"
proof -
  have "\<forall>r'. Some r = Some r' \<longrightarrow>
          Found r' \<and> (Error r' = None \<longrightarrow> Available r') \<and> (Available r' \<longrightarrow> Error r' = None)"
    by (rule pollLoop_shape_induct
          [where P = "\<lambda>ro evs. \<forall>r'. ro = Some r' \<longrightarrow>
              Found r' \<and> (Error r' = None \<longrightarrow> Available r') \<and> (Available r' \<longrightarrow> Error r' = None)",
           OF _ _ _ _ assms]) simp_all
  then show ?thesis by simp
qed

lemma pollLoop_no_set:
  assumes "pollLoop config n start i w = (ro, evs, w')"
  shows "EvSetReplicas m k x \<notin> set evs"
  by (rule pollLoop_shape_induct
        [where P = "\<lambda>ro evs. EvSetReplicas m k x \<notin> set evs", OF _ _ _ _ assms]) simp_all

lemma pollLoop_no_handler_events:
  assumes "pollLoop config n start i w = (ro, evs, w')"
  shows "EvNext u \<notin> set evs \<and> EvWriteHeader c \<notin> set evs \<and> EvWrite b \<notin> set evs"
  by (rule pollLoop_shape_induct
        [where P = "\<lambda>ro evs. EvNext u \<notin> set evs \<and> EvWriteHeader c \<notin> set evs \<and> EvWrite b \<notin> set evs",
         OF _ _ _ _ assms]) simp_all

subsection \<open>Where a query sits in the events of the loop\<close>

lemma append_Cons_split:
  assumes "x # xs = pre @ y # post" and "x \<noteq> y"
  shows "\<exists>pre'. pre = x # pre' \<and> xs = pre' @ y # post"
  using assms by (cases pre) auto

lemma pollLoop_failed_get_last:
  assumes "pollLoop config n start i w = (ro, evs, w')"
  shows "\<forall>pre m q e post. evs = pre @ EvGetReplicas m q (Some e) # post \<longrightarrow>
           post = [EvCacheSet m q] \<and>
           (\<exists>d. ro = Some \<lparr>Available = False, Error = Some e, Found = True, Duration = d\<rparr>)"
proof (rule pollLoop_shape_induct
        [where P = "\<lambda>ro evs. \<forall>pre m q e post. evs = pre @ EvGetReplicas m q (Some e) # post \<longrightarrow>
           post = [EvCacheSet m q] \<and>
           (\<exists>d. ro = Some \<lparr>Available = False, Error = Some e, Found = True, Duration = d\<rparr>)",
         OF _ _ _ _ assms], goal_cases)
  case 1
  show ?case by simp
next
  case (2 q x d)
  show ?case
  proof (intro allI impI)
    fix pre m q' e post
    assume a: "[EvGetReplicas n q (Some x), EvCacheSet n q] = pre @ EvGetReplicas m q' (Some e) # post"
    show "post = [EvCacheSet m q'] \<and>
       (\<exists>d'. Some \<lparr>Available = False, Error = Some x, Found = True, Duration = d\<rparr> =
          Some \<lparr>Available = False, Error = Some e, Found = True, Duration = d'\<rparr>)"
    proof (cases pre)
      case Nil
      with a show ?thesis by auto
    next
      case (Cons p ps)
      with a show ?thesis by (cases ps) auto
    qed
  qed
next
  case (3 q d)
  show ?case
  proof (intro allI impI)
    fix pre m q' e post
    assume a: "[EvGetReplicas n q None, EvCacheSet n q, EvLog (LogSuccessful n (AvailableReplicas q) d)]
                 = pre @ EvGetReplicas m q' (Some e) # post"
    from append_Cons_split [OF a] obtain p1 where
      p1: "[EvCacheSet n q, EvLog (LogSuccessful n (AvailableReplicas q) d)] = p1 @ EvGetReplicas m q' (Some e) # post"
      by auto
    from append_Cons_split [OF p1] obtain p2 where
      p2: "[EvLog (LogSuccessful n (AvailableReplicas q) d)] = p2 @ EvGetReplicas m q' (Some e) # post"
      by auto
    from append_Cons_split [OF p2] have False by auto
    then show "post = [EvCacheSet m q'] \<and>
       (\<exists>d'. Some \<lparr>Available = True, Error = None, Found = True, Duration = d\<rparr> =
          Some \<lparr>Available = False, Error = Some e, Found = True, Duration = d'\<rparr>)" ..
  qed
next
  case (4 q ro evs)
  show ?case
  proof (intro allI impI)
    fix pre m q' e post
    assume a: "EvGetReplicas n q None # EvCacheSet n q # EvSleep (FunctionPollInterval config) # evs
                 = pre @ EvGetReplicas m q' (Some e) # post"
    from append_Cons_split [OF a] obtain p1 where
      p1: "EvCacheSet n q # EvSleep (FunctionPollInterval config) # evs = p1 @ EvGetReplicas m q' (Some e) # post"
      by auto
    from append_Cons_split [OF p1] obtain p2 where
      p2: "EvSleep (FunctionPollInterval config) # evs = p2 @ EvGetReplicas m q' (Some e) # post"
      by auto
    from append_Cons_split [OF p2] obtain p3 where
      p3: "evs = p3 @ EvGetReplicas m q' (Some e) # post"
      by auto
    with 4(2) show "post = [EvCacheSet m q'] \<and>
       (\<exists>d. ro = Some \<lparr>Available = False, Error = Some e, Found = True, Duration = d\<rparr>)"
      by blast
  qed
qed

lemma get_cached_Cons:
  assumes rest: "\<forall>pre m q e post. evs = pre @ EvGetReplicas m q e # post \<longrightarrow>
           m = n \<and> (\<exists>post'. post = EvCacheSet n q # post')"
    and notget: "\<And>m q e. ev \<noteq> EvGetReplicas m q e"
  shows "\<forall>pre m q e post. ev # evs = pre @ EvGetReplicas m q e # post \<longrightarrow>
           m = n \<and> (\<exists>post'. post = EvCacheSet n q # post')"
proof (intro allI impI)
  fix pre m q e post
  assume "ev # evs = pre @ EvGetReplicas m q e # post"
  from append_Cons_split [OF this notget] obtain p where "evs = p @ EvGetReplicas m q e # post"
    by auto
  with rest show "m = n \<and> (\<exists>post'. post = EvCacheSet n q # post')" by blast
qed

lemma get_cached_Get:
  assumes rest: "\<forall>pre m q e post. evs = pre @ EvGetReplicas m q e # post \<longrightarrow>
           m = n \<and> (\<exists>post'. post = EvCacheSet n q # post')"
  shows "\<forall>pre m q e post.
           EvGetReplicas n q0 e0 # EvCacheSet n q0 # evs = pre @ EvGetReplicas m q e # post \<longrightarrow>
           m = n \<and> (\<exists>post'. post = EvCacheSet n q # post')"
proof (intro allI impI)
  fix pre m q e post
  assume a: "EvGetReplicas n q0 e0 # EvCacheSet n q0 # evs = pre @ EvGetReplicas m q e # post"
  show "m = n \<and> (\<exists>post'. post = EvCacheSet n q # post')"
  proof (cases pre)
    case Nil
    with a show ?thesis by auto
  next
    case (Cons p ps)
    with a have "EvCacheSet n q0 # evs = ps @ EvGetReplicas m q e # post" by simp
    with get_cached_Cons [OF rest, of "EvCacheSet n q0"] show ?thesis by blast
  qed
qed

lemma get_cached_Nil:
  "\<forall>pre m q e post. [] = pre @ EvGetReplicas m q e # post \<longrightarrow>
           m = n \<and> (\<exists>post'. post = EvCacheSet n q # post')"
  by simp

lemma pollLoop_get_cached:
  assumes "pollLoop config n start i w = (ro, evs, w')"
  shows "\<forall>pre m q e post. evs = pre @ EvGetReplicas m q e # post \<longrightarrow>
           m = n \<and> (\<exists>post'. post = EvCacheSet n q # post')"
proof (rule pollLoop_shape_induct
        [where P = "\<lambda>ro evs. \<forall>pre m q e post. evs = pre @ EvGetReplicas m q e # post \<longrightarrow>
           m = n \<and> (\<exists>post'. post = EvCacheSet n q # post')",
         OF _ _ _ _ assms], goal_cases)
  case 1
  show ?case by simp
next
  case (2 q x d)
  show ?case by (rule get_cached_Get [OF get_cached_Nil])
next
  case (3 q d)
  show ?case
    by (rule get_cached_Get [OF get_cached_Cons [OF get_cached_Nil]]) simp
next
  case (4 q ro evs)
  show ?case
    by (rule get_cached_Get [OF get_cached_Cons [OF 4(2)]]) simp
qed

subsection \<open>The four ways through Scale\<close>

lemma Scale_cases [consumes 1, case_names notfound ready setfailed polled]:
  assumes sc: "Scale config n w = (res, evs, w')"
    and notfound: "\<And>q e s'.
        GetReplicas (ServiceQuery config) n (svc w) = ((q, Some e), s') \<Longrightarrow>
        res = \<lparr>Available = False, Error = Some e, Found = False, Duration = 0\<rparr> \<Longrightarrow>
        evs = [EvGetReplicas n q (Some e)] \<Longrightarrow> thesis"
    and ready: "\<And>q s'.
        GetReplicas (ServiceQuery config) n (svc w) = ((q, None), s') \<Longrightarrow>
        AvailableReplicas q \<noteq> 0 \<Longrightarrow>
        res = \<lparr>Available = True, Error = None, Found = True, Duration = 0\<rparr> \<Longrightarrow>
        evs = [EvGetReplicas n q None, EvCacheSet n q] \<Longrightarrow> thesis"
    and setfailed: "\<And>q s1 k x s2.
        GetReplicas (ServiceQuery config) n (svc w) = ((q, None), s1) \<Longrightarrow>
        AvailableReplicas q = 0 \<Longrightarrow>
        k = (if 0 < MinReplicas q then MinReplicas q else 1) \<Longrightarrow>
        SetReplicas (ServiceQuery config) n k s1 = (Some x, s2) \<Longrightarrow>
        res = \<lparr>Available = False, Error = Some (unable_to_scale n None), Found = True,
               Duration = 0\<rparr> \<Longrightarrow>
        evs = [EvGetReplicas n q None, EvCacheSet n q, EvLog (LogRequested n k),
               EvSetReplicas n k (Some x)] \<Longrightarrow> thesis"
    and polled: "\<And>q s1 k s2 w4 ro evs5.
        GetReplicas (ServiceQuery config) n (svc w) = ((q, None), s1) \<Longrightarrow>
        AvailableReplicas q = 0 \<Longrightarrow>
        k = (if 0 < MinReplicas q then MinReplicas q else 1) \<Longrightarrow>
        SetReplicas (ServiceQuery config) n k s1 = (None, s2) \<Longrightarrow>
        pollLoop config n (clock w) 0 w4 = (ro, evs5, w') \<Longrightarrow>
        res = (case ro of Some r \<Rightarrow> r
               | None \<Rightarrow> \<lparr>Available = True, Error = None, Found = True,
                           Duration = since (clock w) w'\<rparr>) \<Longrightarrow>
        evs = [EvGetReplicas n q None, EvCacheSet n q, EvLog (LogRequested n k),
               EvSetReplicas n k None] @ evs5 \<Longrightarrow> thesis"
  shows thesis
proof -
  obtain q err s1 where g: "GetReplicas (ServiceQuery config) n (svc w) = ((q, err), s1)"
    by (metis surj_pair)
  show thesis
  proof (cases err)
    case (Some e)
    with sc g show thesis
      by (intro notfound [of q e s1]) (auto simp: Scale_def callGetReplicas_def since_def)
  next
    case None
    note errNone = this
    show thesis
    proof (cases "AvailableReplicas q = 0")
      case False
      with sc g errNone show thesis
        by (intro ready [of q s1])
           (auto simp: Scale_def callGetReplicas_def cacheSet_def since_def)
    next
      case True
      define k where "k = (if 0 < MinReplicas q then MinReplicas q else 1)"
      obtain serr s2 where s: "SetReplicas (ServiceQuery config) n k s1 = (serr, s2)"
        by (metis surj_pair)
      define w4 where "w4 = w\<lparr>svc := s1, cache := FunctionCache_Set (clock w) n q (cache w)\<rparr>\<lparr>svc := s2\<rparr>"
      have sc': "Scale config n w =
        (case serr of
           Some _ \<Rightarrow> (\<lparr>Available = False, Error = Some (unable_to_scale n None), Found = True,
                        Duration = since (clock w) w4\<rparr>,
              [EvGetReplicas n q None, EvCacheSet n q, EvLog (LogRequested n k), EvSetReplicas n k serr], w4)
         | None \<Rightarrow>
            (case pollLoop config n (clock w) 0 w4 of
               (Some r, evs5, w5) \<Rightarrow>
                 (r, [EvGetReplicas n q None, EvCacheSet n q, EvLog (LogRequested n k),
                      EvSetReplicas n k serr] @ evs5, w5)
             | (None, evs5, w5) \<Rightarrow>
                 (\<lparr>Available = True, Error = None, Found = True, Duration = since (clock w) w5\<rparr>,
                  [EvGetReplicas n q None, EvCacheSet n q, EvLog (LogRequested n k),
                   EvSetReplicas n k serr] @ evs5, w5)))"
        using g errNone True s
        by (simp add: Scale_def callGetReplicas_def callSetReplicas_def cacheSet_def Let_def
                      k_def [symmetric] w4_def split: option.splits prod.splits)
      show thesis
      proof (cases serr)
        case (Some x)
        with sc sc' have
          "res = \<lparr>Available = False, Error = Some (unable_to_scale n None), Found = True,
                   Duration = 0\<rparr>"
          "evs = [EvGetReplicas n q None, EvCacheSet n q, EvLog (LogRequested n k),
                  EvSetReplicas n k (Some x)]"
          by (auto simp: since_def w4_def)
        with g errNone True k_def s Some show thesis
          by (intro setfailed [of q s1 k x s2]) simp_all
      next
        case None
        obtain ro evs5 w5 where p: "pollLoop config n (clock w) 0 w4 = (ro, evs5, w5)"
          by (metis surj_pair)
        from sc sc' None p have
          "w5 = w'"
          "res = (case ro of Some r \<Rightarrow> r
               | None \<Rightarrow> \<lparr>Available = True, Error = None, Found = True,
                           Duration = since (clock w) w'\<rparr>)"
          "evs = [EvGetReplicas n q None, EvCacheSet n q, EvLog (LogRequested n k),
                  EvSetReplicas n k None] @ evs5"
          by (cases ro; auto)+
        with g errNone True k_def s None p show thesis
          by (intro polled [of q s1 k s2 w4 ro evs5]) simp_all
      qed
    qed
  qed
qed

subsection \<open>What every result and every run of Scale looks like\<close>

lemma pollLoop_no_timeout_log:
  assumes "pollLoop config n start i w = (ro, evs, w')"
  shows "EvLog (LogTimedOut m d) \<notin> set evs"
  by (rule pollLoop_shape_induct
        [where P = "\<lambda>ro evs. EvLog (LogTimedOut m d) \<notin> set evs", OF _ _ _ _ assms]) simp_all

lemma Scale_result:
  assumes sc: "Scale config n w = (res, evs, w')"
  shows "(Error res = None \<longrightarrow> Available res \<and> Found res) \<and> (\<not> Found res \<longrightarrow> Error res \<noteq> None)"
  using sc
proof (cases rule: Scale_cases)
  case (polled q s1 k s2 w4 ro evs5)
  with pollLoop_result [of config n "clock w" 0 w4 _ evs5 w']
  show ?thesis by (cases ro) auto
qed simp_all

lemma Scale_only_scaler_events:
  assumes sc: "Scale config n w = (res, evs, w')"
  shows "EvNext u \<notin> set evs \<and> EvWriteHeader c \<notin> set evs \<and> EvWrite b \<notin> set evs \<and>
         EvLog (LogTimedOut m d) \<notin> set evs"
  using sc
proof (cases rule: Scale_cases)
  case (polled q s1 k s2 w4 ro evs5)
  with pollLoop_no_handler_events [of config n "clock w" 0 w4 ro evs5 w' u c b]
       pollLoop_no_timeout_log [of config n "clock w" 0 w4 ro evs5 w' m d]
  show ?thesis by simp
qed simp_all

subsection \<open>Evaluating the model on the scripted service\<close>

lemmas test_defs = testConfig_def testWorld_def scripted_def replicas_def
lemmas run_defs = Scale_def pollLoop.simps pollBody_def callGetReplicas_def callSetReplicas_def
  cacheSet_def sleep_def since_def unable_to_scale_def fmt_s_def

section \<open>The claims\<close>

text \<open>
  C1. The claim: when the first query sees no replica, the scale request succeeds and
  every one of the \<^verbatim>\<open>MaxPollCount\<close> polls sees no replica, \<^verbatim>\<open>Scale\<close> reports Available false,
  Found true and no error. The code does not: once the loop is used up, control falls
  through to the final \<^verbatim>\<open>return\<close> of the function, which reports Available true. With
  two polls that both see nothing, the result is available, and the handler passes the
  request on to the next handler.
\<close>

theorem Scale_poll_exhaustion_reports_available:
  "Available (fst (Scale (testConfig 2 None) ''f'' (testWorld []))) = True \<and>
   Found (fst (Scale (testConfig 2 None) ''f'' (testWorld []))) = True \<and>
   Error (fst (Scale (testConfig 2 None) ''f'' (testWorld []))) = None \<and>
   fst (snd (Scale (testConfig 2 None) ''f'' (testWorld []))) =
     [EvGetReplicas ''f'' \<lparr>AvailableReplicas = 0, MinReplicas = 0\<rparr> None,
      EvCacheSet ''f'' \<lparr>AvailableReplicas = 0, MinReplicas = 0\<rparr>,
      EvLog (LogRequested ''f'' 1), EvSetReplicas ''f'' 1 None,
      EvGetReplicas ''f'' \<lparr>AvailableReplicas = 0, MinReplicas = 0\<rparr> None,
      EvCacheSet ''f'' \<lparr>AvailableReplicas = 0, MinReplicas = 0\<rparr>,
      EvSleep 10000000,
      EvGetReplicas ''f'' \<lparr>AvailableReplicas = 0, MinReplicas = 0\<rparr> None,
      EvCacheSet ''f'' \<lparr>AvailableReplicas = 0, MinReplicas = 0\<rparr>,
      EvSleep 10000000] \<and>
   last (fst (snd (ScalingHandler (drop 10) (testConfig 2 None) ''/function/f'' (testWorld []))))
     = EvNext ''/function/f''"
  by (simp add: test_defs run_defs ScalingHandler_def Let_def)

text \<open>
  C2. The claim: when the scale request fails, the error of the result is caused by that
  failure. The code formats \<^verbatim>\<open>err\<close>, the error of the first query, which is nil on this
  path, and never reads \<^verbatim>\<open>setScaleErr\<close>: the text of the result is the same whatever
  \<^verbatim>\<open>SetReplicas\<close> answered.
\<close>

theorem Scale_set_error_dropped:
  "SetReplicas (ServiceQuery (testConfig 2 (Some ''quota exceeded''))) ''f'' 1 [] =
     (Some ''quota exceeded'', []) \<and>
   Found (fst (Scale (testConfig 2 (Some ''quota exceeded'')) ''f'' (testWorld []))) = True \<and>
   Available (fst (Scale (testConfig 2 (Some ''quota exceeded'')) ''f'' (testWorld []))) = False \<and>
   Error (fst (Scale (testConfig 2 (Some ''quota exceeded'')) ''f'' (testWorld []))) =
     Some ''unable to scale function [f], err: %!s(<nil>)'' \<and>
   fst (Scale (testConfig 2 (Some ''node pool is full'')) ''f'' (testWorld [])) =
     fst (Scale (testConfig 2 (Some ''quota exceeded'')) ''f'' (testWorld []))"
  by (simp add: test_defs run_defs)

text \<open>
  C3. A result of \<^verbatim>\<open>Scale\<close> without an error is available and found, so the handler never
  reaches its last branch, the one that only logs the time-out and writes no response.
\<close>

theorem Scale_no_error_means_available:
  "(Error (fst (Scale config functionName w)) = None \<longrightarrow>
      Available (fst (Scale config functionName w)) \<and> Found (fst (Scale config functionName w))) \<and>
   EvLog (LogTimedOut m d) \<notin> set (fst (snd (ScalingHandler getServiceName config url w)))"
proof
  obtain res evs w' where sc: "Scale config functionName w = (res, evs, w')"
    by (metis surj_pair)
  from Scale_result [OF sc] sc
  show "Error (fst (Scale config functionName w)) = None \<longrightarrow>
      Available (fst (Scale config functionName w)) \<and> Found (fst (Scale config functionName w))"
    by simp
next
  obtain res evs w' where sc: "Scale config (getServiceName url) w = (res, evs, w')"
    by (metis surj_pair)
  from Scale_result [OF sc] Scale_only_scaler_events [OF sc, of _ _ _ m d] sc
  show "EvLog (LogTimedOut m d) \<notin> set (fst (snd (ScalingHandler getServiceName config url w)))"
    by (auto simp: ScalingHandler_def Let_def split: option.splits)
qed

text \<open>
  The theorem where the polls are used up: no error, and the result is available.
\<close>

theorem Scale_no_error_means_available_witness:
  "Error (fst (Scale (testConfig 2 None) ''f'' (testWorld []))) = None \<and>
   Available (fst (Scale (testConfig 2 None) ''f'' (testWorld []))) \<and>
   Found (fst (Scale (testConfig 2 None) ''f'' (testWorld []))) \<and>
   EvLog (LogTimedOut ''f'' 20000000) \<notin>
     set (fst (snd (ScalingHandler (drop 10) (testConfig 2 None) ''/function/f'' (testWorld []))))"
  using Scale_no_error_means_available
    [of "testConfig 2 None" "''f''" "testWorld []" "''f''" 20000000 "drop 10" "''/function/f''"]
  by (simp add: test_defs run_defs)

text \<open>
  C4. When the first \<^verbatim>\<open>GetReplicas\<close> succeeds and reports at least one available
  replica, \<^verbatim>\<open>Scale\<close> returns Available, Found and no error, and the only calls it
  made are that query and the write to the cache: no \<^verbatim>\<open>SetReplicas\<close>, no polling.
\<close>

theorem Scale_ready_without_scaling:
  assumes "GetReplicas (ServiceQuery config) functionName (svc w) = ((q, None), s')"
    and "0 < AvailableReplicas q"
  shows "Available (fst (Scale config functionName w)) \<and>
         Found (fst (Scale config functionName w)) \<and>
         Error (fst (Scale config functionName w)) = None \<and>
         fst (snd (Scale config functionName w)) =
           [EvGetReplicas functionName q None, EvCacheSet functionName q]"
  using assms
  by (simp add: Scale_def callGetReplicas_def cacheSet_def since_def word_gt_0)

text \<open>
  The theorem at a function that has three replicas.
\<close>

theorem Scale_ready_without_scaling_witness:
  "GetReplicas (ServiceQuery (testConfig 2 None)) ''f'' (svc (testWorld [(replicas 3 1, None)]))
     = ((replicas 3 1, None), []) \<and>
   0 < AvailableReplicas (replicas 3 1) \<and>
   Available (fst (Scale (testConfig 2 None) ''f'' (testWorld [(replicas 3 1, None)]))) \<and>
   Found (fst (Scale (testConfig 2 None) ''f'' (testWorld [(replicas 3 1, None)]))) \<and>
   Error (fst (Scale (testConfig 2 None) ''f'' (testWorld [(replicas 3 1, None)]))) = None \<and>
   fst (snd (Scale (testConfig 2 None) ''f'' (testWorld [(replicas 3 1, None)]))) =
     [EvGetReplicas ''f'' (replicas 3 1) None, EvCacheSet ''f'' (replicas 3 1)]"
  using Scale_ready_without_scaling
    [of "testConfig 2 None" "''f''" "testWorld [(replicas 3 1, None)]" "replicas 3 1" "[]"]
  by (simp add: test_defs)

text \<open>
  C5. When the first \<^verbatim>\<open>GetReplicas\<close> fails, \<^verbatim>\<open>Scale\<close> returns Found false,
  Available false and that error; and a result with Found false only comes from a first
  query that failed.
\<close>

theorem Scale_not_found_iff_first_query_fails:
  "(GetReplicas (ServiceQuery config) functionName (svc w) = ((q, Some e), s') \<longrightarrow>
      \<not> Found (fst (Scale config functionName w)) \<and>
      \<not> Available (fst (Scale config functionName w)) \<and>
      Error (fst (Scale config functionName w)) = Some e) \<and>
   (\<not> Found (fst (Scale config functionName w)) \<longrightarrow>
      snd (fst (GetReplicas (ServiceQuery config) functionName (svc w))) \<noteq> None)"
proof (rule conjI; rule impI)
  assume "GetReplicas (ServiceQuery config) functionName (svc w) = ((q, Some e), s')"
  then show "\<not> Found (fst (Scale config functionName w)) \<and>
      \<not> Available (fst (Scale config functionName w)) \<and>
      Error (fst (Scale config functionName w)) = Some e"
    by (simp add: Scale_def callGetReplicas_def since_def)
next
  assume nf: "\<not> Found (fst (Scale config functionName w))"
  obtain res evs w' where sc: "Scale config functionName w = (res, evs, w')"
    by (metis surj_pair)
  from sc show "snd (fst (GetReplicas (ServiceQuery config) functionName (svc w))) \<noteq> None"
  proof (cases rule: Scale_cases)
    case (notfound q e s')
    then show ?thesis by simp
  next
    case (ready q s')
    with nf sc show ?thesis by simp
  next
    case (setfailed q s1 k x s2)
    with nf sc show ?thesis by simp
  next
    case (polled q s1 k s2 w4 ro evs5)
    with nf sc pollLoop_result [of config functionName "clock w" 0 w4 _ evs5 w']
    show ?thesis by (cases ro) auto
  qed
qed

text \<open>
  The theorem at a service whose first answer is an error.
\<close>

theorem Scale_not_found_iff_first_query_fails_witness:
  "GetReplicas (ServiceQuery (testConfig 2 None)) ''f''
      (svc (testWorld [(replicas 0 0, Some ''no such function'')]))
     = ((replicas 0 0, Some ''no such function''), []) \<and>
   \<not> Found (fst (Scale (testConfig 2 None) ''f''
        (testWorld [(replicas 0 0, Some ''no such function'')]))) \<and>
   \<not> Available (fst (Scale (testConfig 2 None) ''f''
        (testWorld [(replicas 0 0, Some ''no such function'')]))) \<and>
   Error (fst (Scale (testConfig 2 None) ''f''
        (testWorld [(replicas 0 0, Some ''no such function'')]))) = Some ''no such function'' \<and>
   snd (fst (GetReplicas (ServiceQuery (testConfig 2 None)) ''f''
      (svc (testWorld [(replicas 0 0, Some ''no such function'')])))) \<noteq> None"
  using Scale_not_found_iff_first_query_fails
    [of "testConfig 2 None" "''f''" "testWorld [(replicas 0 0, Some ''no such function'')]"
        "replicas 0 0" "''no such function''" "[]"]
  by (simp add: test_defs)

text \<open>
  C6. A query that fails while polling (any failed query that is not the first event of
  the run) is followed by the write to the cache and nothing else, and the result is
  Found true, Available false, with that error.
\<close>

theorem Scale_poll_failure_ends_polling:
  assumes "fst (snd (Scale config functionName w)) = pre @ EvGetReplicas m q (Some e) # post"
    and "pre \<noteq> []"
  shows "post = [EvCacheSet m q] \<and>
         Found (fst (Scale config functionName w)) \<and>
         \<not> Available (fst (Scale config functionName w)) \<and>
         Error (fst (Scale config functionName w)) = Some e"
proof -
  obtain res evs w' where sc: "Scale config functionName w = (res, evs, w')"
    by (metis surj_pair)
  with assms have dec: "evs = pre @ EvGetReplicas m q (Some e) # post" by simp
  from sc show ?thesis
  proof (cases rule: Scale_cases)
    case (notfound q' e' s')
    with dec assms(2) show ?thesis by (cases pre) auto
  next
    case (ready q' s')
    with dec have a: "[EvGetReplicas functionName q' None, EvCacheSet functionName q'] =
        pre @ EvGetReplicas m q (Some e) # post" by simp
    from append_Cons_split [OF a] obtain p1 where
      "[EvCacheSet functionName q'] = p1 @ EvGetReplicas m q (Some e) # post" by auto
    from append_Cons_split [OF this] show ?thesis by auto
  next
    case (setfailed q' s1 k x s2)
    with dec have a: "[EvGetReplicas functionName q' None, EvCacheSet functionName q',
         EvLog (LogRequested functionName k), EvSetReplicas functionName k (Some x)] =
        pre @ EvGetReplicas m q (Some e) # post" by simp
    from append_Cons_split [OF a] obtain p1 where
      p1: "[EvCacheSet functionName q', EvLog (LogRequested functionName k),
        EvSetReplicas functionName k (Some x)] = p1 @ EvGetReplicas m q (Some e) # post" by auto
    from append_Cons_split [OF p1] obtain p2 where
      p2: "[EvLog (LogRequested functionName k), EvSetReplicas functionName k (Some x)] =
        p2 @ EvGetReplicas m q (Some e) # post" by auto
    from append_Cons_split [OF p2] obtain p3 where
      p3: "[EvSetReplicas functionName k (Some x)] = p3 @ EvGetReplicas m q (Some e) # post" by auto
    from append_Cons_split [OF p3] show ?thesis by auto
  next
    case (polled q' s1 k s2 w4 ro evs5)
    with dec have a: "EvGetReplicas functionName q' None # EvCacheSet functionName q' #
         EvLog (LogRequested functionName k) # EvSetReplicas functionName k None # evs5 =
        pre @ EvGetReplicas m q (Some e) # post" by simp
    from append_Cons_split [OF a] obtain p1 where
      p1: "EvCacheSet functionName q' # EvLog (LogRequested functionName k) #
        EvSetReplicas functionName k None # evs5 = p1 @ EvGetReplicas m q (Some e) # post" by auto
    from append_Cons_split [OF p1] obtain p2 where
      p2: "EvLog (LogRequested functionName k) # EvSetReplicas functionName k None # evs5 =
        p2 @ EvGetReplicas m q (Some e) # post" by auto
    from append_Cons_split [OF p2] obtain p3 where
      p3: "EvSetReplicas functionName k None # evs5 = p3 @ EvGetReplicas m q (Some e) # post" by auto
    from append_Cons_split [OF p3] obtain p4 where
      p4: "evs5 = p4 @ EvGetReplicas m q (Some e) # post" by auto
    from pollLoop_failed_get_last [OF polled(5)] p4
    have "post = [EvCacheSet m q] \<and>
       (\<exists>d. ro = Some \<lparr>Available = False, Error = Some e, Found = True, Duration = d\<rparr>)"
      by blast
    with polled(6) sc show ?thesis by auto
  qed
qed

text \<open>
  The theorem where the second of five allowed polls fails.
\<close>

theorem Scale_poll_failure_ends_polling_witness:
  "fst (snd (Scale (testConfig 5 None) ''f''
      (testWorld [(replicas 0 0, None), (replicas 0 0, None), (replicas 0 0, Some ''gone'')]))) =
     [EvGetReplicas ''f'' (replicas 0 0) None, EvCacheSet ''f'' (replicas 0 0),
      EvLog (LogRequested ''f'' 1), EvSetReplicas ''f'' 1 None,
      EvGetReplicas ''f'' (replicas 0 0) None, EvCacheSet ''f'' (replicas 0 0), EvSleep 10000000]
     @ EvGetReplicas ''f'' (replicas 0 0) (Some ''gone'') # [EvCacheSet ''f'' (replicas 0 0)] \<and>
   Found (fst (Scale (testConfig 5 None) ''f''
      (testWorld [(replicas 0 0, None), (replicas 0 0, None), (replicas 0 0, Some ''gone'')]))) \<and>
   \<not> Available (fst (Scale (testConfig 5 None) ''f''
      (testWorld [(replicas 0 0, None), (replicas 0 0, None), (replicas 0 0, Some ''gone'')]))) \<and>
   Error (fst (Scale (testConfig 5 None) ''f''
      (testWorld [(replicas 0 0, None), (replicas 0 0, None), (replicas 0 0, Some ''gone'')])))
     = Some ''gone''"
  using Scale_poll_failure_ends_polling
    [of "testConfig 5 None" "''f''"
        "testWorld [(replicas 0 0, None), (replicas 0 0, None), (replicas 0 0, Some ''gone'')]"
        "[EvGetReplicas ''f'' (replicas 0 0) None, EvCacheSet ''f'' (replicas 0 0),
          EvLog (LogRequested ''f'' 1), EvSetReplicas ''f'' 1 None,
          EvGetReplicas ''f'' (replicas 0 0) None, EvCacheSet ''f'' (replicas 0 0), EvSleep 10000000]"
        "''f''" "replicas 0 0" "''gone''" "[EvCacheSet ''f'' (replicas 0 0)]"]
  by (simp add: test_defs run_defs)

text \<open>
  C7. Every \<^verbatim>\<open>SetReplicas\<close> that \<^verbatim>\<open>Scale\<close> issues is for the function asked for, comes
  after a first query that succeeded and saw no available replica, and asks for
  \<^verbatim>\<open>MinReplicas\<close> of that observation when it is positive and for 1 otherwise.
\<close>

theorem Scale_requests_minimum_from_zero:
  assumes "EvSetReplicas m k x \<in> set (fst (snd (Scale config functionName w)))"
  shows "m = functionName \<and>
         snd (fst (GetReplicas (ServiceQuery config) functionName (svc w))) = None \<and>
         AvailableReplicas (fst (fst (GetReplicas (ServiceQuery config) functionName (svc w)))) = 0 \<and>
         k = (if 0 < MinReplicas (fst (fst (GetReplicas (ServiceQuery config) functionName (svc w))))
              then MinReplicas (fst (fst (GetReplicas (ServiceQuery config) functionName (svc w))))
              else 1)"
proof -
  obtain res evs w' where sc: "Scale config functionName w = (res, evs, w')"
    by (metis surj_pair)
  with assms have mem: "EvSetReplicas m k x \<in> set evs" by simp
  from sc show ?thesis
  proof (cases rule: Scale_cases)
    case (notfound q e s')
    with mem show ?thesis by simp
  next
    case (ready q s')
    with mem show ?thesis by simp
  next
    case (setfailed q s1 k' x' s2)
    with mem show ?thesis by auto
  next
    case (polled q s1 k' s2 w4 ro evs5)
    with mem pollLoop_no_set [of config functionName "clock w" 0 w4 ro evs5 w' m k x]
    show ?thesis by auto
  qed
qed

text \<open>
  The theorem at a function with no replica and a minimum of three.
\<close>

theorem Scale_requests_minimum_from_zero_witness:
  "EvSetReplicas ''f'' 3 None \<in>
     set (fst (snd (Scale (testConfig 2 None) ''f'' (testWorld [(replicas 0 3, None)])))) \<and>
   snd (fst (GetReplicas (ServiceQuery (testConfig 2 None)) ''f''
      (svc (testWorld [(replicas 0 3, None)])))) = None \<and>
   AvailableReplicas (fst (fst (GetReplicas (ServiceQuery (testConfig 2 None)) ''f''
      (svc (testWorld [(replicas 0 3, None)]))))) = 0 \<and>
   MinReplicas (fst (fst (GetReplicas (ServiceQuery (testConfig 2 None)) ''f''
      (svc (testWorld [(replicas 0 3, None)]))))) = 3"
  using Scale_requests_minimum_from_zero
    [of "''f''" 3 None "testConfig 2 None" "''f''" "testWorld [(replicas 0 3, None)]"]
  by (simp add: test_defs run_defs)

text \<open>
  C8. When the result of \<^verbatim>\<open>Scale\<close> has Found false, the handler writes status 404 and a
  body made of the function name and the error text, and does not call the next handler.
\<close>

theorem ScalingHandler_not_found:
  assumes "\<not> Found (fst (Scale config (getServiceName url) w))"
  shows "Error (fst (Scale config (getServiceName url) w)) \<noteq> None \<and>
         fst (snd (ScalingHandler getServiceName config url w)) =
           fst (snd (Scale config (getServiceName url) w)) @
           [EvLog (LogScaling (''error finding function '' @ getServiceName url @ '': '' @
                     the (Error (fst (Scale config (getServiceName url) w))))),
            EvWriteHeader 404,
            EvWrite (''error finding function '' @ getServiceName url @ '': '' @
                     the (Error (fst (Scale config (getServiceName url) w))))] \<and>
         EvNext u \<notin> set (fst (snd (ScalingHandler getServiceName config url w)))"
proof -
  obtain res evs w' where sc: "Scale config (getServiceName url) w = (res, evs, w')"
    by (metis surj_pair)
  from assms sc have nf: "\<not> Found res" by simp
  with Scale_result [OF sc] obtain e where e: "Error res = Some e" by auto
  from sc have "EvNext u \<notin> set evs"
  proof (cases rule: Scale_cases)
    case (polled q s1 k s2 w4 ro evs5)
    with pollLoop_no_handler_events [OF polled(5), of u] show ?thesis by simp
  qed simp_all
  with sc nf e show ?thesis
    by (simp add: ScalingHandler_def Let_def error_finding_def StatusNotFound_def)
qed

text \<open>
  The theorem at a service whose first answer is an error.
\<close>

theorem ScalingHandler_not_found_witness:
  "\<not> Found (fst (Scale (testConfig 2 None) (drop 10 ''/function/f'')
        (testWorld [(replicas 0 0, Some ''no such function'')]))) \<and>
   fst (snd (ScalingHandler (drop 10) (testConfig 2 None) ''/function/f''
        (testWorld [(replicas 0 0, Some ''no such function'')]))) =
     [EvGetReplicas ''f'' (replicas 0 0) (Some ''no such function''),
      EvLog (LogScaling ''error finding function f: no such function''),
      EvWriteHeader 404,
      EvWrite ''error finding function f: no such function''] \<and>
   EvNext ''/function/f'' \<notin> set (fst (snd (ScalingHandler (drop 10) (testConfig 2 None)
        ''/function/f'' (testWorld [(replicas 0 0, Some ''no such function'')]))))"
  using ScalingHandler_not_found
    [of "testConfig 2 None" "drop 10" "''/function/f''"
        "testWorld [(replicas 0 0, Some ''no such function'')]" "''/function/f''"]
  by (simp add: test_defs run_defs)

text \<open>
  C9, as the code has it. Every query of a run, except a first query that failed, is for
  the function asked for and is followed at once by a write to the cache, under that name,
  of the response value the query returned, whether the query succeeded or failed.
\<close>

theorem Scale_caches_what_each_query_returned:
  assumes "fst (snd (Scale config functionName w)) = pre @ EvGetReplicas m q e # post"
    and "pre \<noteq> [] \<or> e = None"
  shows "m = functionName \<and> take 1 post = [EvCacheSet functionName q]"
proof -
  obtain res evs w' where sc: "Scale config functionName w = (res, evs, w')"
    by (metis surj_pair)
  with assms have dec: "evs = pre @ EvGetReplicas m q e # post" by simp
  have "m = functionName \<and> (\<exists>post'. post = EvCacheSet functionName q # post')"
    using sc
  proof (cases rule: Scale_cases)
    case (notfound q' e' s')
    with dec assms(2) show ?thesis by (cases pre) auto
  next
    case (ready q' s')
    have a: "EvGetReplicas functionName q' None # EvCacheSet functionName q' # [] =
               pre @ EvGetReplicas m q e # post"
      using dec ready(4) by simp
    show ?thesis
      by (rule get_cached_Get [OF get_cached_Nil, rule_format, OF a])
  next
    case (setfailed q' s1 k x s2)
    have a: "EvGetReplicas functionName q' None # EvCacheSet functionName q' #
               EvLog (LogRequested functionName k) #
               EvSetReplicas functionName k (Some x) # [] =
               pre @ EvGetReplicas m q e # post"
      using dec setfailed(6) by simp
    have b: "\<forall>pre m q e post.
        EvLog (LogRequested functionName k) # EvSetReplicas functionName k (Some x) # [] =
          pre @ EvGetReplicas m q e # post \<longrightarrow>
        m = functionName \<and> (\<exists>post'. post = EvCacheSet functionName q # post')"
      by (rule get_cached_Cons [OF get_cached_Cons [OF get_cached_Nil]]) simp_all
    show ?thesis
      by (rule get_cached_Get [OF b, rule_format, OF a])
  next
    case (polled q' s1 k s2 w4 ro evs5)
    have a: "EvGetReplicas functionName q' None # EvCacheSet functionName q' #
               EvLog (LogRequested functionName k) #
               EvSetReplicas functionName k None # evs5 =
               pre @ EvGetReplicas m q e # post"
      using dec polled(7) by simp
    have b: "\<forall>pre m q e post.
        EvLog (LogRequested functionName k) # EvSetReplicas functionName k None # evs5 =
          pre @ EvGetReplicas m q e # post \<longrightarrow>
        m = functionName \<and> (\<exists>post'. post = EvCacheSet functionName q # post')"
      by (rule get_cached_Cons [OF get_cached_Cons [OF pollLoop_get_cached [OF polled(5)]]])
         simp_all
    show ?thesis
      by (rule get_cached_Get [OF b, rule_format, OF a])
  qed
  then obtain post' where "m = functionName" "post = EvCacheSet functionName q # post'"
    by auto
  then show ?thesis by simp
qed

text \<open>
  The theorem at a poll that fails and returns a response that is not the zero value.
\<close>

theorem Scale_caches_what_each_query_returned_witness:
  "fst (snd (Scale (testConfig 3 None) ''f''
      (testWorld [(replicas 0 2, None), (replicas 5 2, Some ''gone'')]))) =
     [EvGetReplicas ''f'' (replicas 0 2) None, EvCacheSet ''f'' (replicas 0 2),
      EvLog (LogRequested ''f'' 2), EvSetReplicas ''f'' 2 None]
     @ EvGetReplicas ''f'' (replicas 5 2) (Some ''gone'') # [EvCacheSet ''f'' (replicas 5 2)] \<and>
   [EvGetReplicas ''f'' (replicas 0 2) None, EvCacheSet ''f'' (replicas 0 2),
      EvLog (LogRequested ''f'' 2), EvSetReplicas ''f'' 2 None] \<noteq> [] \<and>
   take 1 [EvCacheSet ''f'' (replicas 5 2)] = [EvCacheSet ''f'' (replicas 5 2)]"
  using Scale_caches_what_each_query_returned
    [of "testConfig 3 None" "''f''"
        "testWorld [(replicas 0 2, None), (replicas 5 2, Some ''gone'')]"
        "[EvGetReplicas ''f'' (replicas 0 2) None, EvCacheSet ''f'' (replicas 0 2),
          EvLog (LogRequested ''f'' 2), EvSetReplicas ''f'' 2 None]"
        "''f''" "replicas 5 2" "Some ''gone''" "[EvCacheSet ''f'' (replicas 5 2)]"]
  by (simp add: test_defs run_defs)

text \<open>
  C9 as it is stated says that a failed poll stores the zero value. A service may return
  any response next to its error; here the failed poll returns five available replicas,
  and that is what the cache holds afterwards.
\<close>

theorem Scale_failed_poll_caches_nonzero:
  "fst (snd (Scale (testConfig 3 None) ''f''
      (testWorld [(replicas 0 2, None), (replicas 5 2, Some ''gone'')]))) =
     [EvGetReplicas ''f'' \<lparr>AvailableReplicas = 0, MinReplicas = 2\<rparr> None,
      EvCacheSet ''f'' \<lparr>AvailableReplicas = 0, MinReplicas = 2\<rparr>,
      EvLog (LogRequested ''f'' 2), EvSetReplicas ''f'' 2 None,
      EvGetReplicas ''f'' \<lparr>AvailableReplicas = 5, MinReplicas = 2\<rparr> (Some ''gone''),
      EvCacheSet ''f'' \<lparr>AvailableReplicas = 5, MinReplicas = 2\<rparr>] \<and>
   map_option Observation
     (Cache (cache (snd (snd (Scale (testConfig 3 None) ''f''
        (testWorld [(replicas 0 2, None), (replicas 5 2, Some ''gone'')]))))) ''f'') =
     Some \<lparr>AvailableReplicas = 5, MinReplicas = 2\<rparr> \<and>
   \<lparr>AvailableReplicas = 5, MinReplicas = 2\<rparr> \<noteq> \<lparr>AvailableReplicas = 0, MinReplicas = 0\<rparr>"
  by (simp add: test_defs run_defs FunctionCache_Set_def)

text \<open>
  C10. A result of \<^verbatim>\<open>Scale\<close> with Found false carries an error, and the handler never
  calls \<^verbatim>\<open>Error()\<close> on a nil error: it ends without a panic on every request.
\<close>

theorem Scale_not_found_has_error:
  "(\<not> Found (fst (Scale config functionName w)) \<longrightarrow>
      Error (fst (Scale config functionName w)) \<noteq> None) \<and>
   fst (ScalingHandler getServiceName config url w) = None"
proof
  obtain res evs w' where sc: "Scale config functionName w = (res, evs, w')"
    by (metis surj_pair)
  from Scale_result [OF sc] sc
  show "\<not> Found (fst (Scale config functionName w)) \<longrightarrow>
      Error (fst (Scale config functionName w)) \<noteq> None"
    by simp
next
  obtain res evs w' where sc: "Scale config (getServiceName url) w = (res, evs, w')"
    by (metis surj_pair)
  from Scale_result [OF sc] sc
  show "fst (ScalingHandler getServiceName config url w) = None"
    by (auto simp: ScalingHandler_def Let_def split: option.splits)
qed

text \<open>
  The theorem at a service whose first answer is an error.
\<close>

theorem Scale_not_found_has_error_witness:
  "\<not> Found (fst (Scale (testConfig 2 None) ''f''
        (testWorld [(replicas 0 0, Some ''no such function'')]))) \<and>
   Error (fst (Scale (testConfig 2 None) ''f''
        (testWorld [(replicas 0 0, Some ''no such function'')]))) \<noteq> None \<and>
   fst (ScalingHandler (drop 10) (testConfig 2 None) ''/function/f''
        (testWorld [(replicas 0 0, Some ''no such function'')])) = None"
  using Scale_not_found_has_error
    [of "testConfig 2 None" "''f''" "testWorld [(replicas 0 0, Some ''no such function'')]"
        "drop 10" "''/function/f''"]
  by (simp add: test_defs run_defs)

end
